theory Spec2Isabelle
  imports Main "HOL-Library.Char_ord" "HOL-Library.List_Lexorder" "HOL-Library.Multiset"
begin

section \<open>Strings as the program uses them\<close>

text \<open>
  The program is Python, whose \<open>str\<close> is a sequence of code points. A \<open>string\<close> of
  this theory is a list of \<open>char\<close>, and each \<open>char\<close> stands for one code point below
  256 (the Latin-1 block): \<open>length\<close> counts code points as Python's \<open>len\<close> does, and
  the order of \<open>char\<close> is the order of the code points. The model says nothing about
  strings with a code point of 256 or more.
\<close>

text \<open>
  \<open>str.isspace\<close> on one code point. Below 256 the whitespace code points are
  TAB, LF, VT, FF, CR, the separators 0x1C to 0x1F, the space, NEL (0x85) and the
  no-break space (0xA0).
\<close>

definition isspace :: "char \<Rightarrow> bool" where
  "isspace c = ((of_char c :: nat) \<in> {9, 10, 11, 12, 13, 28, 29, 30, 31, 32, 133, 160})"

text \<open>\<open>s.strip()\<close>: drop the whitespace at both ends.\<close>

definition str_strip :: "string \<Rightarrow> string" where
  "str_strip s = rev (dropWhile isspace (rev (dropWhile isspace s)))"

text \<open>
  \<open>s.lower()\<close>. Below 256 the code points with a lowercase mapping are A to Z and
  0xC0 to 0xDE without the multiplication sign 0xD7; each maps to the code point 32
  above it, and every other code point maps to itself.
\<close>

definition lower_char :: "char \<Rightarrow> char" where
  "lower_char c =
     (let n = (of_char c :: nat) in
      if (65 \<le> n \<and> n \<le> 90) \<or> (192 \<le> n \<and> n \<le> 222 \<and> n \<noteq> 215)
      then char_of (n + 32) else c)"

definition str_lower :: "string \<Rightarrow> string" where
  "str_lower s = map lower_char s"

text \<open>\<open>s.startswith(p)\<close> and \<open>s.removeprefix(p)\<close>.\<close>

definition startswith :: "string \<Rightarrow> string \<Rightarrow> bool" where
  "startswith s p = (take (length p) s = p)"

definition removeprefix :: "string \<Rightarrow> string \<Rightarrow> string" where
  "removeprefix s p = (if startswith s p then drop (length p) s else s)"

text \<open>
  \<open>s.split(sep)\<close> for a separator of one character, which is how the program calls
  it: the pieces between the occurrences of \<open>sep\<close>, empty pieces included.
\<close>

fun str_split :: "string \<Rightarrow> char \<Rightarrow> string list" where
  "str_split [] sep = [[]]"
| "str_split (c # cs) sep =
     (if c = sep then [] # str_split cs sep
      else (case str_split cs sep of
              [] \<Rightarrow> [[c]]
            | w # ws \<Rightarrow> (c # w) # ws))"

section \<open>Errors\<close>

text \<open>
  The exceptions the program can raise: \<open>IndexError\<close> from a subscript out of range,
  and FastAPI's \<open>HTTPException\<close> with its status code and detail.
\<close>

datatype error = IndexError | HTTPException nat string

text \<open>\<open>xs[i]\<close> for an index that is not negative.\<close>

definition getitem :: "'a list \<Rightarrow> nat \<Rightarrow> error + 'a" where
  "getitem xs i = (if i < length xs then Inr (xs ! i) else Inl IndexError)"

section \<open>The normalizer\<close>

text \<open>
  \<^verbatim>\<open>
  def normalize_domain(domain: str) -> str:
      return domain.strip().lower().removeprefix("http://").removeprefix("https://")
                   .removeprefix("www.").split("/")[0]
  \<close>
\<close>

definition normalize_domain :: "string \<Rightarrow> error + string" where
  "normalize_domain domain =
     getitem
       (str_split
          (removeprefix
             (removeprefix
                (removeprefix (str_lower (str_strip domain)) ''http://'')
                ''https://'')
             ''www.'')
          (CHR ''/''))
       0"

section \<open>The mappings table\<close>

text \<open>
  The table \<open>mappings(domain TEXT PRIMARY KEY, redirect TEXT)\<close>: its rows in the
  order of insertion, the redirect column nullable. \<open>init_db\<close> creates it empty.
\<close>

type_synonym row = "string \<times> string option"
type_synonym table = "row list"

definition init_db :: table where
  "init_db = []"

text \<open>\<open>SELECT redirect FROM mappings WHERE domain = ?\<close> and \<open>cur.fetchone()\<close>.\<close>

definition select_redirect :: "string \<Rightarrow> table \<Rightarrow> string option list" where
  "select_redirect d t = map snd (filter (\<lambda>r. fst r = d) t)"

fun fetchone :: "'a list \<Rightarrow> 'a option" where
  "fetchone [] = None"
| "fetchone (x # xs) = Some x"

text \<open>
  \<open>INSERT INTO mappings(domain, redirect) VALUES(?, ?) ON CONFLICT(domain) DO UPDATE
  SET redirect=excluded.redirect\<close>: the row with that key gets the new redirect where
  it stands; without such a row a new one is added.
\<close>

fun insert_or_update :: "string \<Rightarrow> string option \<Rightarrow> table \<Rightarrow> table" where
  "insert_or_update d r [] = [(d, r)]"
| "insert_or_update d r ((k, v) # rows) =
     (if k = d then (k, r) # rows else (k, v) # insert_or_update d r rows)"

text \<open>\<open>DELETE FROM mappings WHERE domain = ?\<close> and the \<open>rowcount\<close> it leaves.\<close>

definition delete_rows :: "string \<Rightarrow> table \<Rightarrow> table" where
  "delete_rows d t = filter (\<lambda>r. fst r \<noteq> d) t"

definition rowcount :: "string \<Rightarrow> table \<Rightarrow> nat" where
  "rowcount d t = length (filter (\<lambda>r. fst r = d) t)"

text \<open>
  \<open>SELECT domain, redirect FROM mappings ORDER BY domain\<close>: the column has the
  default collation, which compares the encoded strings byte by byte, and that is
  the lexicographic order of the code points.
\<close>

definition select_all_ordered :: "table \<Rightarrow> row list" where
  "select_all_ordered t = sort_key fst t"

record MappingItem =
  item_domain :: string
  item_redirect :: "string option"

section \<open>The store functions\<close>

text \<open>
  Each function takes the table and, when it writes, returns the new one. An
  exception of \<open>normalize_domain\<close> leaves before the statement runs.
\<close>

definition get_redirect_for :: "string \<Rightarrow> table \<Rightarrow> error + string option" where
  "get_redirect_for domain t =
     (case normalize_domain domain of
        Inl e \<Rightarrow> Inl e
      | Inr d \<Rightarrow>
          Inr (case fetchone (select_redirect d t) of
                 None \<Rightarrow> None
               | Some r \<Rightarrow> r))"

definition set_mapping :: "string \<Rightarrow> string option \<Rightarrow> table \<Rightarrow> error + table" where
  "set_mapping domain redirect t =
     (case normalize_domain domain of
        Inl e \<Rightarrow> Inl e
      | Inr d \<Rightarrow> Inr (insert_or_update d redirect t))"

definition remove_mapping :: "string \<Rightarrow> table \<Rightarrow> error + (bool \<times> table)" where
  "remove_mapping domain t =
     (case normalize_domain domain of
        Inl e \<Rightarrow> Inl e
      | Inr d \<Rightarrow> (let changed = rowcount d t in Inr (changed \<noteq> 0, delete_rows d t)))"

definition list_mappings :: "table \<Rightarrow> MappingItem list" where
  "list_mappings t =
     map (\<lambda>r. \<lparr>item_domain = fst r, item_redirect = snd r\<rparr>) (select_all_ordered t)"

section \<open>Sequences of store operations\<close>

text \<open>
  The two writing operations of the store, and a run of them in order from a given
  table. A run stops at the first exception, as the caller would.
\<close>

datatype store_op = Upsert string "string option" | Delete string

fun store_step :: "store_op \<Rightarrow> table \<Rightarrow> error + table" where
  "store_step (Upsert domain redirect) t = set_mapping domain redirect t"
| "store_step (Delete domain) t =
     (case remove_mapping domain t of
        Inl e \<Rightarrow> Inl e
      | Inr (ok, t') \<Rightarrow> Inr t')"

fun store_run :: "store_op list \<Rightarrow> table \<Rightarrow> error + table" where
  "store_run [] t = Inr t"
| "store_run (x # xs) t =
     (case store_step x t of
        Inl e \<Rightarrow> Inl e
      | Inr t' \<Rightarrow> store_run xs t')"

text \<open>The raw domains that the upserts of a run were given.\<close>

fun upsert_inputs :: "store_op list \<Rightarrow> string list" where
  "upsert_inputs [] = []"
| "upsert_inputs (Upsert domain redirect # xs) = domain # upsert_inputs xs"
| "upsert_inputs (Delete domain # xs) = upsert_inputs xs"

section \<open>The routes\<close>

text \<open>
  Python's truth test on an optional string (\<open>if x\<close>, \<open>not x\<close>): \<open>None\<close> and the
  empty string are false.
\<close>

definition truthy :: "string option \<Rightarrow> bool" where
  "truthy x = (case x of None \<Rightarrow> False | Some s \<Rightarrow> s \<noteq> [])"

text \<open>
  \<^verbatim>\<open>
  def require_api_key(x_api_key: Optional[str] = Header(None)):
      if API_KEY:
          if not x_api_key or x_api_key != API_KEY:
              raise HTTPException(status_code=status.HTTP_401_UNAUTHORIZED, ...)
      return True
  \<close>
  \<open>API_KEY\<close> is the environment variable of that name, \<open>None\<close> when it is not set.
\<close>

definition require_api_key :: "string option \<Rightarrow> string option \<Rightarrow> error + bool" where
  "require_api_key API_KEY x_api_key =
     (if truthy API_KEY then
        (if \<not> truthy x_api_key \<or> x_api_key \<noteq> API_KEY
         then Inl (HTTPException 401 ''Invalid or missing API key'')
         else Inr True)
      else Inr True)"

record CheckRequest =
  check_domain :: string

record RegisterRequest =
  reg_domain :: string
  reg_redirect :: "string option"

text \<open>
  \<open>POST /check\<close>. The route reads the table and does not write it; its answer
  \<open>{"redirect": redirect}\<close> is modelled by the redirect.
\<close>

definition check :: "CheckRequest \<Rightarrow> table \<Rightarrow> error + string option" where
  "check payload t =
     (if check_domain payload = [] then Inl (HTTPException 400 ''missing domain'')
      else get_redirect_for (check_domain payload) t)"

text \<open>
  \<open>POST /register\<close>, behind \<open>require_api_key\<close>. The result is the answer or the
  exception, with the table as the request leaves it; the answer
  \<open>{"ok": True, "domain": ..., "redirect": ...}\<close> is modelled by the triple of its values.
\<close>

definition register ::
  "string option \<Rightarrow> string option \<Rightarrow> RegisterRequest \<Rightarrow> table
     \<Rightarrow> (error + (bool \<times> string \<times> string option)) \<times> table" where
  "register API_KEY x_api_key payload t =
     (case require_api_key API_KEY x_api_key of
        Inl e \<Rightarrow> (Inl e, t)
      | Inr _ \<Rightarrow>
          if reg_domain payload = [] then (Inl (HTTPException 400 ''missing domain''), t)
          else
            (case set_mapping (reg_domain payload)
                    (if truthy (reg_redirect payload) then reg_redirect payload else None) t of
               Inl e \<Rightarrow> (Inl e, t)
             | Inr t' \<Rightarrow>
                 (case normalize_domain (reg_domain payload) of
                    Inl e \<Rightarrow> (Inl e, t')
                  | Inr d \<Rightarrow> (Inr (True, d, reg_redirect payload), t'))))"

text \<open>
  \<open>DELETE /unregister?domain=...\<close>, behind \<open>require_api_key\<close>; the answer
  \<open>{"ok": True, "domain": ...}\<close> is modelled by the pair of its values.
\<close>

definition unregister ::
  "string option \<Rightarrow> string option \<Rightarrow> string \<Rightarrow> table
     \<Rightarrow> (error + (bool \<times> string)) \<times> table" where
  "unregister API_KEY x_api_key domain t =
     (case require_api_key API_KEY x_api_key of
        Inl e \<Rightarrow> (Inl e, t)
      | Inr _ \<Rightarrow>
          if domain = [] then (Inl (HTTPException 400 ''missing domain''), t)
          else
            (case remove_mapping domain t of
               Inl e \<Rightarrow> (Inl e, t)
             | Inr (ok, t') \<Rightarrow>
                 if \<not> ok then (Inl (HTTPException 404 ''mapping not found''), t')
                 else
                   (case normalize_domain domain of
                      Inl e \<Rightarrow> (Inl e, t')
                    | Inr d \<Rightarrow> (Inr (True, d), t'))))"

section \<open>The normalizer as the specification words it\<close>

text \<open>
  The specification's third step reads: strip a leading scheme prefix, \<open>"http://"\<close> if
  present, else \<open>"https://"\<close> if present, at most one removal. These two definitions
  follow those words, for comparison with \<open>normalize_domain\<close>.
\<close>

definition strip_scheme_spec :: "string \<Rightarrow> string" where
  "strip_scheme_spec t =
     (if startswith t ''http://'' then drop 7 t
      else if startswith t ''https://'' then drop 8 t
      else t)"

definition normalize_spec :: "string \<Rightarrow> error + string" where
  "normalize_spec raw =
     getitem
       (str_split
          (removeprefix (strip_scheme_spec (str_lower (str_strip raw))) ''www.'')
          (CHR ''/''))
       0"

section \<open>Properties of the string functions\<close>

lemma of_char_lt: "(of_char c :: nat) < 256"
proof -
  have "(of_char c :: nat) mod 256 = of_char c" by simp
  then show ?thesis by (metis mod_less_divisor zero_less_numeral)
qed

lemma of_char_lower_char:
  "(of_char (lower_char c) :: nat) =
     (if (65 \<le> (of_char c :: nat) \<and> (of_char c :: nat) \<le> 90)
         \<or> (192 \<le> (of_char c :: nat) \<and> (of_char c :: nat) \<le> 222 \<and> (of_char c :: nat) \<noteq> 215)
      then of_char c + 32 else of_char c)"
  using of_char_lt [of c] by (simp add: lower_char_def Let_def)

lemma lower_char_idem: "lower_char (lower_char c) = lower_char c"
proof -
  have "(of_char (lower_char (lower_char c)) :: nat) = of_char (lower_char c)"
    by (simp add: of_char_lower_char)
  then show ?thesis by simp
qed

lemma str_lower_idem: "str_lower (str_lower s) = str_lower s"
  by (simp add: str_lower_def lower_char_idem)

lemma str_strip_all_space: "\<forall>c\<in>set s. isspace c \<Longrightarrow> str_strip s = []"
  by (auto simp: str_strip_def dest: set_dropWhileD)

lemma dropWhile_hd: "xs \<noteq> [] \<Longrightarrow> \<not> P (hd xs) \<Longrightarrow> dropWhile P xs = xs"
  by (cases xs) auto

lemma str_strip_id:
  assumes "k \<noteq> [] \<longrightarrow> \<not> isspace (hd k) \<and> \<not> isspace (last k)"
  shows "str_strip k = k"
proof (cases "k = []")
  case True
  then show ?thesis by (simp add: str_strip_def)
next
  case False
  with assms have h: "\<not> isspace (hd k)" and l: "\<not> isspace (last k)" by auto
  from h False have "dropWhile isspace k = k" by (rule dropWhile_hd [rotated])
  moreover from l False have "dropWhile isspace (rev k) = rev k"
    by (intro dropWhile_hd) (simp_all add: hd_rev)
  ultimately show ?thesis by (simp add: str_strip_def)
qed

lemma removeprefix_no_slash:
  "CHR ''/'' \<notin> set k \<Longrightarrow> CHR ''/'' \<in> set p \<Longrightarrow> removeprefix k p = k"
proof -
  assume a: "CHR ''/'' \<notin> set k" and b: "CHR ''/'' \<in> set p"
  have "take (length p) k \<noteq> p"
  proof
    assume "take (length p) k = p"
    with b have "CHR ''/'' \<in> set (take (length p) k)" by simp
    with a show False by (blast dest: in_set_takeD)
  qed
  then show ?thesis by (simp add: removeprefix_def startswith_def)
qed

lemma set_removeprefix: "set (removeprefix s p) \<subseteq> set s"
  by (auto simp: removeprefix_def dest: in_set_dropD)

lemma startswith_append:
  "startswith t (p @ q) \<longleftrightarrow> startswith t p \<and> startswith (drop (length p) t) q"
proof
  assume "startswith t (p @ q)"
  then have eq: "take (length p) t @ take (length q) (drop (length p) t) = p @ q"
    by (simp add: startswith_def take_add)
  then have "length (take (length p) t @ take (length q) (drop (length p) t)) = length (p @ q)"
    by simp
  then have "length (take (length p) t) = length p"
    by (simp add: min_def split: if_splits)
  with eq show "startswith t p \<and> startswith (drop (length p) t) q"
    by (simp add: startswith_def)
next
  assume "startswith t p \<and> startswith (drop (length p) t) q"
  then show "startswith t (p @ q)"
    by (simp add: startswith_def take_add)
qed

lemma startswith_http_https:
  "startswith t ''http://https://'' \<longleftrightarrow>
     startswith t ''http://'' \<and> startswith (drop 7 t) ''https://''"
proof -
  have a: "''http://https://'' = ''http://'' @ ''https://''" by simp
  have b: "length ''http://'' = 7" by simp
  show ?thesis by (simp only: a startswith_append b)
qed

lemma removeprefix_http:
  "removeprefix t ''http://'' = (if startswith t ''http://'' then drop 7 t else t)"
proof -
  have "length ''http://'' = 7" by simp
  then show ?thesis unfolding removeprefix_def by presburger
qed

lemma removeprefix_https:
  "removeprefix t ''https://'' = (if startswith t ''https://'' then drop 8 t else t)"
proof -
  have "length ''https://'' = 8" by simp
  then show ?thesis unfolding removeprefix_def by presburger
qed

lemma scheme_removal_cases:
  "removeprefix (removeprefix t ''http://'') ''https://'' =
     (if startswith t ''http://https://'' then drop 15 t
      else if startswith t ''http://'' then drop 7 t
      else if startswith t ''https://'' then drop 8 t
      else t)"
proof (cases "startswith t ''http://''")
  case True
  then have "removeprefix t ''http://'' = drop 7 t"
    by (simp only: removeprefix_http if_True)
  moreover have "drop 8 (drop 7 t) = drop 15 t" by simp
  ultimately show ?thesis
    using True by (simp only: removeprefix_https startswith_http_https) simp
next
  case False
  then have "removeprefix t ''http://'' = t"
    by (simp only: removeprefix_http if_False)
  then show ?thesis
    using False by (simp only: removeprefix_https startswith_http_https) simp
qed

lemma str_split_nonempty: "str_split s sep \<noteq> []"
  by (induction s) (auto split: list.splits)

lemma str_split_first: "str_split s sep ! 0 = takeWhile (\<lambda>c. c \<noteq> sep) s"
proof (induction s)
  case Nil
  then show ?case by simp
next
  case (Cons c cs)
  then show ?case
    using str_split_nonempty [of cs sep] by (cases "str_split cs sep") auto
qed

lemma getitem_split_first:
  "getitem (str_split s sep) 0 = Inr (takeWhile (\<lambda>c. c \<noteq> sep) s)"
  using str_split_nonempty [of s sep] by (simp add: getitem_def str_split_first)

lemma normalize_domain_takeWhile:
  "normalize_domain s =
     Inr (takeWhile (\<lambda>c. c \<noteq> CHR ''/'')
            (removeprefix (removeprefix (removeprefix (str_lower (str_strip s)) ''http://'')
               ''https://'') ''www.''))"
  unfolding normalize_domain_def by (rule getitem_split_first)

lemma normalize_domain_total: "\<exists>k. normalize_domain s = Inr k"
  by (simp add: normalize_domain_takeWhile)

section \<open>Properties of the normalizer\<close>

text \<open>
  Claim C9. \<open>normalize_domain\<close> returns a string for every input string, without an
  exception, and for an input that is empty or made of whitespace only the result is the
  empty string.
\<close>

theorem normalize_domain_total_blank:
  "(\<exists>k. normalize_domain s = Inr k)
   \<and> ((\<forall>c\<in>set s. isspace c) \<longrightarrow> normalize_domain s = Inr [])"
  by (simp add: normalize_domain_takeWhile str_strip_all_space str_lower_def
      removeprefix_def startswith_def)

theorem normalize_domain_total_blank_witness:
  "isspace (CHR '' '') \<and> isspace (CHR 0x09) \<and> isspace (CHR 0x0A)
   \<and> normalize_domain [CHR '' '', CHR 0x09, CHR 0x0A] = Inr []"
proof -
  have h: "\<forall>c\<in>set [CHR '' '', CHR 0x09, CHR 0x0A]. isspace c"
    by (simp add: isspace_def)
  with normalize_domain_total_blank [of "[CHR '' '', CHR 0x09, CHR 0x0A]"]
  have "normalize_domain [CHR '' '', CHR 0x09, CHR 0x0A] = Inr []" by blast
  with h show ?thesis by simp
qed

text \<open>
  Claim C2, as stated: \<open>normalize(normalize(s)) = normalize(s)\<close> for every string. It
  fails: of two leading \<open>"www."\<close> the normalizer removes one, and the second pass
  removes the other.
\<close>

theorem normalize_domain_not_idempotent:
  "normalize_domain ''www.www.a.com'' = Inr ''www.a.com''
   \<and> normalize_domain ''www.a.com'' = Inr ''a.com''
   \<and> normalize_domain ''www.a.com'' \<noteq> Inr ''www.a.com''"
  by code_simp

text \<open>
  Claim C2, amended. When the result of \<open>normalize_domain\<close> has no whitespace at
  either end and does not begin with \<open>"www."\<close>, normalizing it again gives it back.
\<close>

theorem normalize_domain_idempotent_on_clean:
  assumes "normalize_domain s = Inr k"
    and "k \<noteq> [] \<longrightarrow> \<not> isspace (hd k) \<and> \<not> isspace (last k)"
    and "\<not> startswith k ''www.''"
  shows "normalize_domain k = Inr k"
proof -
  have slash: "CHR ''/'' \<notin> set k"
    using assms(1) by (auto simp: normalize_domain_takeWhile dest: set_takeWhileD)
  have "set k \<subseteq> set (str_lower (str_strip s))"
  proof
    fix c assume "c \<in> set k"
    with assms(1) have "c \<in> set (removeprefix (removeprefix (removeprefix
        (str_lower (str_strip s)) ''http://'') ''https://'') ''www.'')"
      by (auto simp: normalize_domain_takeWhile dest: set_takeWhileD)
    then show "c \<in> set (str_lower (str_strip s))"
      using set_removeprefix by blast
  qed
  then have low: "str_lower k = k"
    by (auto simp: str_lower_def lower_char_idem intro!: map_idI)
  have tw: "takeWhile (\<lambda>c. c \<noteq> CHR ''/'') k = k"
    using slash by auto
  have st: "str_strip k = k"
    using assms(2) by (rule str_strip_id)
  have r1: "removeprefix k ''http://'' = k"
    by (rule removeprefix_no_slash [OF slash]) simp
  have r2: "removeprefix k ''https://'' = k"
    by (rule removeprefix_no_slash [OF slash]) simp
  have r3: "removeprefix k ''www.'' = k"
    using assms(3) by (simp add: removeprefix_def)
  show ?thesis
    by (simp only: normalize_domain_takeWhile st low r1 r2 r3 tw)
qed

theorem normalize_domain_idempotent_on_clean_witness:
  "normalize_domain ''HTTP://WWW.Example.com/path'' = Inr ''example.com''
   \<and> \<not> isspace (hd ''example.com'') \<and> \<not> isspace (last ''example.com'')
   \<and> \<not> startswith ''example.com'' ''www.''
   \<and> normalize_domain ''example.com'' = Inr ''example.com''"
proof -
  have a: "normalize_domain ''HTTP://WWW.Example.com/path'' = Inr ''example.com''"
    by code_simp
  have b: "\<not> isspace (hd ''example.com'') \<and> \<not> isspace (last ''example.com'')"
    by (simp add: isspace_def)
  then have b': "''example.com'' \<noteq> [] \<longrightarrow>
        \<not> isspace (hd ''example.com'') \<and> \<not> isspace (last ''example.com'')"
    by (rule impI)
  have c: "\<not> startswith ''example.com'' ''www.''"
    by (simp add: startswith_def)
  from a b c normalize_domain_idempotent_on_clean [OF a b' c] show ?thesis
    by blast
qed

text \<open>
  Claim C3, as stated: at most one scheme prefix is removed, \<open>"http://"\<close> or else
  \<open>"https://"\<close>. It fails on an input that begins with \<open>"http://https://"\<close>: the
  program removes both, where one removal would leave \<open>"https:"\<close>.
\<close>

theorem normalize_domain_strips_two_schemes:
  "normalize_domain ''http://https://a.com'' = Inr ''a.com''
   \<and> normalize_spec ''http://https://a.com'' = Inr ''https:''"
  by code_simp

text \<open>
  Claim C3, amended. \<open>normalize_domain\<close> removes a leading \<open>"http://"\<close> when there is
  one, and then a leading \<open>"https://"\<close> from what is left when there is one: both
  prefixes of an input that (trimmed and lowercased) begins with
  \<open>"http://https://"\<close>, one prefix of an input that begins with one of the two, and
  nothing otherwise. On every input that does not begin with \<open>"http://https://"\<close>
  it agrees with the normalizer that removes at most one.
\<close>

theorem normalize_domain_scheme_cases:
  "normalize_domain s =
     (let t = str_lower (str_strip s) in
      getitem
        (str_split
           (removeprefix
              (if startswith t ''http://https://'' then drop 15 t
               else if startswith t ''http://'' then drop 7 t
               else if startswith t ''https://'' then drop 8 t
               else t)
              ''www.'')
           (CHR ''/''))
        0)
   \<and> (\<not> startswith (str_lower (str_strip s)) ''http://https://''
        \<longrightarrow> normalize_domain s = normalize_spec s)"
proof -
  let ?t = "str_lower (str_strip s)"
  have "\<not> startswith ?t ''http://https://'' \<Longrightarrow>
        removeprefix (removeprefix ?t ''http://'') ''https://'' = strip_scheme_spec ?t"
    unfolding scheme_removal_cases strip_scheme_spec_def by simp
  then show ?thesis
    unfolding normalize_domain_def normalize_spec_def Let_def
    by (simp add: scheme_removal_cases)
qed

theorem normalize_domain_scheme_cases_witness:
  "\<not> startswith (str_lower (str_strip ''https://Example.COM'')) ''http://https://''
   \<and> normalize_domain ''https://Example.COM'' = normalize_spec ''https://Example.COM''
   \<and> normalize_spec ''https://Example.COM'' = Inr ''example.com''"
proof -
  have h: "\<not> startswith (str_lower (str_strip ''https://Example.COM'')) ''http://https://''"
    by code_simp
  have v: "normalize_spec ''https://Example.COM'' = Inr ''example.com''"
    by code_simp
  from h normalize_domain_scheme_cases [of "''https://Example.COM''"] v show ?thesis by blast
qed

section \<open>Properties of the table statements\<close>

lemma fetchone_select_upsert:
  "fetchone (select_redirect d (insert_or_update d r t)) = Some r"
  by (induction d r t rule: insert_or_update.induct) (auto simp: select_redirect_def)

lemma keys_insert_or_update:
  "fst ` set (insert_or_update d r t) = insert d (fst ` set t)"
  by (induction d r t rule: insert_or_update.induct) auto

lemma distinct_insert_or_update:
  "distinct (map fst t) \<Longrightarrow> distinct (map fst (insert_or_update d r t))"
proof (induction d r t rule: insert_or_update.induct)
  case (1 d r)
  then show ?case by simp
next
  case (2 d r k v rows)
  then show ?case
    using keys_insert_or_update [of d r rows] by auto
qed

lemma fetchone_select_distinct:
  "distinct (map fst t) \<Longrightarrow> (k, r) \<in> set t \<Longrightarrow> fetchone (select_redirect k t) = Some r"
proof (induction t)
  case Nil
  then show ?case by simp
next
  case (Cons x xs)
  then show ?case
    by (cases x) (auto simp: select_redirect_def rev_image_eqI)
qed

lemma fetchone_select_absent:
  "k \<notin> fst ` set t \<Longrightarrow> fetchone (select_redirect k t) = None"
  by (induction t) (auto simp: select_redirect_def)

lemma map_fst_insert_or_update_again:
  "map fst (insert_or_update d rb (insert_or_update d ra t)) = map fst (insert_or_update d ra t)"
  by (induction d ra t rule: insert_or_update.induct) auto

lemma mset_select_all_ordered: "mset (select_all_ordered t) = mset t"
  by (simp add: select_all_ordered_def)

lemma rows_list_mappings:
  "map (\<lambda>m. (item_domain m, item_redirect m)) (list_mappings t) = select_all_ordered t"
  by (simp add: list_mappings_def comp_def)

lemma domains_list_mappings:
  "map item_domain (list_mappings t) = map fst (select_all_ordered t)"
  by (simp add: list_mappings_def comp_def)

lemma sorted_select_all_ordered: "sorted (map fst (select_all_ordered t))"
  by (simp add: select_all_ordered_def)

lemma keys_delete_rows: "fst ` set (delete_rows d t) = fst ` set t - {d}"
  by (auto simp: delete_rows_def)

lemma distinct_delete_rows: "distinct (map fst t) \<Longrightarrow> distinct (map fst (delete_rows d t))"
  by (simp add: delete_rows_def distinct_map_filter)

lemma set_mapping_Inr:
  "normalize_domain d = Inr k \<Longrightarrow> set_mapping d r t = Inr (insert_or_update k r t)"
  by (simp add: set_mapping_def)

lemma remove_mapping_Inr:
  "normalize_domain d = Inr k \<Longrightarrow>
   remove_mapping d t = Inr (rowcount k t \<noteq> 0, delete_rows k t)"
  by (simp add: remove_mapping_def)

lemma store_step_total: "\<exists>t'. store_step x t = Inr t'"
proof (cases x)
  case (Upsert d r)
  obtain k where "normalize_domain d = Inr k" using normalize_domain_total by blast
  with Upsert show ?thesis by (simp add: set_mapping_Inr)
next
  case (Delete d)
  obtain k where "normalize_domain d = Inr k" using normalize_domain_total by blast
  with Delete show ?thesis by (simp add: remove_mapping_Inr)
qed

lemma store_step_keys:
  assumes "store_step x t = Inr t'"
  shows "fst ` set t' \<subseteq>
     fst ` set t \<union> {k. \<exists>d\<in>set (upsert_inputs [x]). normalize_domain d = Inr k}"
proof (cases x)
  case (Upsert d r)
  obtain k where k: "normalize_domain d = Inr k" using normalize_domain_total by blast
  with assms Upsert have "t' = insert_or_update k r t" by (simp add: set_mapping_Inr)
  with k Upsert show ?thesis by (simp add: keys_insert_or_update)
next
  case (Delete d)
  obtain k where k: "normalize_domain d = Inr k" using normalize_domain_total by blast
  with assms Delete have "t' = delete_rows k t" by (simp add: remove_mapping_Inr)
  then show ?thesis by (auto simp: keys_delete_rows)
qed

lemma store_step_distinct:
  assumes "store_step x t = Inr t'" and "distinct (map fst t)"
  shows "distinct (map fst t')"
proof (cases x)
  case (Upsert d r)
  obtain k where k: "normalize_domain d = Inr k" using normalize_domain_total by blast
  with assms Upsert have "t' = insert_or_update k r t" by (simp add: set_mapping_Inr)
  with assms(2) show ?thesis by (simp add: distinct_insert_or_update)
next
  case (Delete d)
  obtain k where k: "normalize_domain d = Inr k" using normalize_domain_total by blast
  with assms Delete have "t' = delete_rows k t" by (simp add: remove_mapping_Inr)
  with assms(2) show ?thesis by (simp add: distinct_delete_rows)
qed

lemma upsert_inputs_Cons:
  "set (upsert_inputs (x # xs)) = set (upsert_inputs [x]) \<union> set (upsert_inputs xs)"
  by (cases x) auto

lemma store_run_total: "\<exists>t'. store_run xs t = Inr t'"
proof (induction xs arbitrary: t)
  case Nil
  then show ?case by simp
next
  case (Cons x xs)
  obtain t1 where "store_step x t = Inr t1" using store_step_total by blast
  with Cons show ?case by simp
qed

lemma store_run_keys:
  "store_run xs t = Inr t' \<Longrightarrow>
   fst ` set t' \<subseteq> fst ` set t \<union> {k. \<exists>d\<in>set (upsert_inputs xs). normalize_domain d = Inr k}"
proof (induction xs arbitrary: t)
  case Nil
  then show ?case by simp
next
  case (Cons x xs)
  then obtain t1 where s: "store_step x t = Inr t1" and r: "store_run xs t1 = Inr t'"
    by (auto split: sum.splits)
  have "{k. \<exists>d\<in>set (upsert_inputs (x # xs)). normalize_domain d = Inr k} =
      {k. \<exists>d\<in>set (upsert_inputs [x]). normalize_domain d = Inr k}
      \<union> {k. \<exists>d\<in>set (upsert_inputs xs). normalize_domain d = Inr k}"
    unfolding upsert_inputs_Cons [of x xs] by auto
  with store_step_keys [OF s] Cons.IH [OF r] show ?case
    by (simp only: Un_assoc [symmetric])
       (meson Un_mono order_refl subset_trans sup.cobounded1 le_sup_iff)
qed

lemma store_run_distinct:
  "store_run xs t = Inr t' \<Longrightarrow> distinct (map fst t) \<Longrightarrow> distinct (map fst t')"
proof (induction xs arbitrary: t)
  case Nil
  then show ?case by simp
next
  case (Cons x xs)
  then obtain t1 where s: "store_step x t = Inr t1" and r: "store_run xs t1 = Inr t'"
    by (auto split: sum.splits)
  from store_step_distinct [OF s Cons.prems(2)] Cons.IH [OF r] show ?case by blast
qed

section \<open>Properties of the store\<close>

text \<open>
  Claim C1. Two upserts of the same raw domain, with redirects \<open>ra\<close> and then \<open>rb\<close>,
  both succeed; the second leaves the keys of the table as the first left them (it
  replaces, it does not append); and a lookup of any raw domain with the same normal form
  returns \<open>rb\<close>.
\<close>

theorem upsert_twice_then_get:
  "\<exists>t1 t2. set_mapping d ra t = Inr t1 \<and> set_mapping d rb t1 = Inr t2
     \<and> map fst t2 = map fst t1
     \<and> (normalize_domain d' = normalize_domain d \<longrightarrow> get_redirect_for d' t2 = Inr rb)"
proof -
  obtain k where k: "normalize_domain d = Inr k"
    using normalize_domain_total by blast
  then show ?thesis
    by (simp add: set_mapping_def get_redirect_for_def fetchone_select_upsert
        map_fst_insert_or_update_again)
qed

theorem upsert_twice_then_get_witness:
  "normalize_domain ''EXAMPLE.COM'' = normalize_domain ''Example.com''
   \<and> set_mapping ''Example.com'' None init_db = Inr [(''example.com'', None)]
   \<and> set_mapping ''Example.com'' (Some ''https://x'') [(''example.com'', None)]
       = Inr [(''example.com'', Some ''https://x'')]
   \<and> get_redirect_for ''EXAMPLE.COM'' [(''example.com'', Some ''https://x'')]
       = Inr (Some ''https://x'')"
proof -
  have h: "normalize_domain ''EXAMPLE.COM'' = normalize_domain ''Example.com''"
    by code_simp
  have a: "set_mapping ''Example.com'' None init_db = Inr [(''example.com'', None)]"
    by code_simp
  have b: "set_mapping ''Example.com'' (Some ''https://x'') [(''example.com'', None)]
       = Inr [(''example.com'', Some ''https://x'')]"
    by code_simp
  from h a b
    upsert_twice_then_get [where d' = "''EXAMPLE.COM''" and d = "''Example.com''"
      and ra = None and t = init_db and rb = "Some ''https://x''"]
  show ?thesis by auto
qed

text \<open>
  Claim C5. \<open>get_redirect_for\<close> returns the stored redirect when the table has a row for
  the normal form of the raw domain, and \<open>None\<close> when it has none; a row whose redirect
  is \<open>None\<close> and no row at all give the same result \<open>None\<close>.
\<close>

theorem get_redirect_for_contract:
  "\<exists>k. normalize_domain d = Inr k
     \<and> (\<forall>r. distinct (map fst t) \<and> (k, r) \<in> set t \<longrightarrow> get_redirect_for d t = Inr r)
     \<and> (k \<notin> fst ` set t \<longrightarrow> get_redirect_for d t = Inr None)
     \<and> (distinct (map fst t) \<and> (k, None) \<in> set t \<longrightarrow> get_redirect_for d t = Inr None)"
  using normalize_domain_total [of d]
  by (auto simp: get_redirect_for_def fetchone_select_distinct fetchone_select_absent)

theorem get_redirect_for_contract_witness:
  "normalize_domain ''A.com'' = Inr ''a.com''
   \<and> distinct (map fst [(''a.com'', None :: string option)])
   \<and> (''a.com'', None) \<in> set [(''a.com'', None :: string option)]
   \<and> get_redirect_for ''A.com'' [(''a.com'', None)] = Inr None
   \<and> ''a.com'' \<notin> fst ` set ([] :: table)
   \<and> get_redirect_for ''A.com'' [] = Inr None"
proof -
  have n: "normalize_domain ''A.com'' = Inr ''a.com''" by code_simp
  from n get_redirect_for_contract [of "''A.com''" "[(''a.com'', None)]"]
    get_redirect_for_contract [of "''A.com''" "[]"]
  show ?thesis by simp
qed

text \<open>
  Claim C6. \<open>remove_mapping\<close> raises nothing; it returns \<open>True\<close> exactly when the table
  had a row for the normal form of the raw domain; afterwards the table has no such row
  and keeps every other row; and when it returns \<open>False\<close> the table is unchanged.
\<close>

theorem remove_mapping_contract:
  "\<exists>k ok t'. normalize_domain d = Inr k \<and> remove_mapping d t = Inr (ok, t')
     \<and> (ok \<longleftrightarrow> k \<in> fst ` set t)
     \<and> k \<notin> fst ` set t'
     \<and> set t' = {row \<in> set t. fst row \<noteq> k}
     \<and> (\<not> ok \<longrightarrow> t' = t)"
proof -
  obtain k where k: "normalize_domain d = Inr k"
    using normalize_domain_total by blast
  have a: "(rowcount k t \<noteq> 0) = (k \<in> fst ` set t)"
    by (auto simp: rowcount_def filter_empty_conv)
  have b: "k \<notin> fst ` set t \<Longrightarrow> delete_rows k t = t"
    by (auto simp: delete_rows_def filter_id_conv)
  show ?thesis
    using k a b by (auto simp: remove_mapping_def Let_def delete_rows_def)
qed

theorem remove_mapping_contract_witness:
  "normalize_domain ''A.com'' = Inr ''a.com''
   \<and> remove_mapping ''A.com'' [(''a.com'', Some ''https://x''), (''b.com'', None)]
       = Inr (True, [(''b.com'', None)])
   \<and> remove_mapping ''A.com'' [(''b.com'', None)] = Inr (False, [(''b.com'', None)])"
proof -
  have n: "normalize_domain ''A.com'' = Inr ''a.com''" by code_simp
  from n
    remove_mapping_contract [of "''A.com''" "[(''a.com'', Some ''https://x''), (''b.com'', None)]"]
    remove_mapping_contract [of "''A.com''" "[(''b.com'', None)]"]
  show ?thesis by (auto simp: remove_mapping_def rowcount_def delete_rows_def)
qed

text \<open>
  Claim C7. \<open>list_mappings\<close> returns every row of the table exactly once, in ascending
  order of the domain; after upserts of \<open>"b.com"\<close> and then \<open>"a.com"\<close> into the empty
  table the domains come back as \<open>["a.com", "b.com"]\<close>.
\<close>

theorem list_mappings_ordered:
  "mset (map (\<lambda>m. (item_domain m, item_redirect m)) (list_mappings t)) = mset t
   \<and> sorted (map item_domain (list_mappings t))
   \<and> (case set_mapping ''b.com'' r1 init_db of
        Inl e \<Rightarrow> Inl e
      | Inr t1 \<Rightarrow>
          (case set_mapping ''a.com'' r2 t1 of
             Inl e \<Rightarrow> Inl e
           | Inr t2 \<Rightarrow> Inr (map item_domain (list_mappings t2))))
       = Inr [''a.com'', ''b.com'']"
proof -
  have n1: "normalize_domain ''b.com'' = Inr ''b.com''" by code_simp
  have n2: "normalize_domain ''a.com'' = Inr ''a.com''" by code_simp
  have lt: "''a.com'' < ''b.com''" by code_simp
  have d: "(case set_mapping ''b.com'' r1 init_db of
        Inl e \<Rightarrow> Inl e
      | Inr t1 \<Rightarrow>
          (case set_mapping ''a.com'' r2 t1 of
             Inl e \<Rightarrow> Inl e
           | Inr t2 \<Rightarrow> Inr (map item_domain (list_mappings t2))))
       = Inr [''a.com'', ''b.com'']"
    using lt
    by (simp add: set_mapping_def n1 n2 init_db_def domains_list_mappings
        select_all_ordered_def)
  from d show ?thesis
    by (simp add: rows_list_mappings domains_list_mappings sorted_select_all_ordered
        mset_select_all_ordered)
qed

text \<open>
  Claim C4, as stated: every stored key \<open>k\<close> satisfies \<open>normalize(k) = k\<close>. It fails:
  the key stored for \<open>"www.www.a.com"\<close> is \<open>"www.a.com"\<close>, which normalizes to
  \<open>"a.com"\<close>.
\<close>

theorem stored_key_not_fixed_point:
  "store_run [Upsert ''www.www.a.com'' None] init_db = Inr [(''www.a.com'', None)]
   \<and> normalize_domain ''www.a.com'' = Inr ''a.com''
   \<and> normalize_domain ''www.a.com'' \<noteq> Inr ''www.a.com''"
  by code_simp

text \<open>
  Claim C4, amended. After any sequence of upserts and deletes from the empty table, no
  two rows have the same key, and every stored key is the normal form of a raw domain
  that an upsert of the sequence was given.
\<close>

theorem stored_keys_are_normal_forms:
  "\<exists>t. store_run ops init_db = Inr t \<and> distinct (map fst t)
     \<and> (\<forall>k\<in>fst ` set t. \<exists>d\<in>set (upsert_inputs ops). normalize_domain d = Inr k)"
proof -
  obtain t where t: "store_run ops init_db = Inr t" using store_run_total by blast
  have "distinct (map fst t)"
    using store_run_distinct [OF t] by (simp add: init_db_def)
  moreover have "\<forall>k\<in>fst ` set t. \<exists>d\<in>set (upsert_inputs ops). normalize_domain d = Inr k"
    using store_run_keys [OF t] by (auto simp: init_db_def)
  ultimately show ?thesis using t by blast
qed

theorem stored_keys_are_normal_forms_witness:
  "store_run [Upsert ''HTTP://WWW.Example.com/path'' None, Upsert ''b.com'' None, Delete ''B.COM'']
     init_db = Inr [(''example.com'', None)]
   \<and> distinct (map fst [(''example.com'', None :: string option)])
   \<and> upsert_inputs
        [Upsert ''HTTP://WWW.Example.com/path'' None, Upsert ''b.com'' None, Delete ''B.COM'']
       = [''HTTP://WWW.Example.com/path'', ''b.com'']
   \<and> normalize_domain ''HTTP://WWW.Example.com/path'' = Inr ''example.com''"
proof -
  have r: "store_run [Upsert ''HTTP://WWW.Example.com/path'' None, Upsert ''b.com'' None,
      Delete ''B.COM''] init_db = Inr [(''example.com'', None)]"
    by code_simp
  have n: "normalize_domain ''b.com'' = Inr ''b.com''"
    by code_simp
  from r n stored_keys_are_normal_forms
    [of "[Upsert ''HTTP://WWW.Example.com/path'' None, Upsert ''b.com'' None, Delete ''B.COM'']"]
  show ?thesis by simp
qed

text \<open>
  Claim C10. The result of \<open>normalize_domain\<close> has no \<open>'/'\<close> in it, and so no key of a
  table built by upserts and deletes from the empty table has one.
\<close>

theorem normalize_domain_no_slash:
  "(normalize_domain s = Inr k \<longrightarrow> CHR ''/'' \<notin> set k)
   \<and> (store_run ops init_db = Inr t \<longrightarrow> (\<forall>k\<in>fst ` set t. CHR ''/'' \<notin> set k))"
proof -
  have a: "\<And>s k. normalize_domain s = Inr k \<Longrightarrow> CHR ''/'' \<notin> set k"
    by (auto simp: normalize_domain_takeWhile dest: set_takeWhileD)
  have "\<forall>k\<in>fst ` set t. CHR ''/'' \<notin> set k" if t: "store_run ops init_db = Inr t"
  proof
    fix k assume "k \<in> fst ` set t"
    with store_run_keys [OF t] obtain d where "normalize_domain d = Inr k"
      by (auto simp: init_db_def)
    then show "CHR ''/'' \<notin> set k" by (rule a)
  qed
  with a show ?thesis by blast
qed

theorem normalize_domain_no_slash_witness:
  "normalize_domain ''https://www.a.com/x/y'' = Inr ''a.com''
   \<and> CHR ''/'' \<notin> set ''a.com''
   \<and> store_run [Upsert ''b.com/p/q'' None] init_db = Inr [(''b.com'', None)]
   \<and> CHR ''/'' \<notin> set ''b.com''"
proof -
  have a: "normalize_domain ''https://www.a.com/x/y'' = Inr ''a.com''" by code_simp
  have b: "store_run [Upsert ''b.com/p/q'' None] init_db = Inr [(''b.com'', None)]"
    by code_simp
  from a b
    normalize_domain_no_slash [of "''https://www.a.com/x/y''" "''a.com''"
      "[Upsert ''b.com/p/q'' None]" "[(''b.com'', None)]"]
  show ?thesis by simp
qed

text \<open>
  Claim C8, as stated: the store operations reject an empty or blank raw domain. They do
  not: \<open>set_mapping\<close>, \<open>get_redirect_for\<close> and \<open>remove_mapping\<close> work on the empty key,
  and the route \<open>register\<close> lets a blank domain through to them.
\<close>

theorem store_accepts_blank_domain:
  "set_mapping '''' (Some ''https://x'') init_db = Inr [('''', Some ''https://x'')]
   \<and> get_redirect_for '' '' [('''', Some ''https://x'')] = Inr (Some ''https://x'')
   \<and> remove_mapping '' '' [('''', Some ''https://x'')] = Inr (True, [])
   \<and> register None None \<lparr>reg_domain = '' '', reg_redirect = Some ''https://x''\<rparr> init_db
       = (Inr (True, '''', Some ''https://x''), [('''', Some ''https://x'')])"
  by code_simp

text \<open>
  Claim C8, amended. The routes \<open>check\<close>, \<open>register\<close> and \<open>unregister\<close> answer the
  empty raw domain with an exception and leave the table as it was: \<open>check\<close> with
  status 400, the other two with the exception of \<open>require_api_key\<close> when it raises
  one and with status 400 otherwise.
\<close>

theorem routes_reject_empty_domain:
  "check \<lparr>check_domain = ''''\<rparr> t = Inl (HTTPException 400 ''missing domain'')
   \<and> register API_KEY x_api_key \<lparr>reg_domain = '''', reg_redirect = r\<rparr> t =
       (Inl (case require_api_key API_KEY x_api_key of
               Inl e \<Rightarrow> e
             | Inr ok \<Rightarrow> HTTPException 400 ''missing domain''), t)
   \<and> unregister API_KEY x_api_key '''' t =
       (Inl (case require_api_key API_KEY x_api_key of
               Inl e \<Rightarrow> e
             | Inr ok \<Rightarrow> HTTPException 400 ''missing domain''), t)"
  by (simp add: check_def register_def unregister_def split: sum.splits)

theorem routes_reject_empty_domain_witness:
  "check \<lparr>check_domain = ''''\<rparr> [(''a.com'', None)]
       = Inl (HTTPException 400 ''missing domain'')
   \<and> register (Some ''secret'') (Some ''secret'') \<lparr>reg_domain = '''', reg_redirect = None\<rparr>
        [(''a.com'', None)]
       = (Inl (HTTPException 400 ''missing domain''), [(''a.com'', None)])
   \<and> unregister (Some ''secret'') (Some ''secret'') '''' [(''a.com'', None)]
       = (Inl (HTTPException 400 ''missing domain''), [(''a.com'', None)])
   \<and> require_api_key (Some ''secret'') (Some ''secret'') = Inr True"
proof -
  have k: "require_api_key (Some ''secret'') (Some ''secret'') = Inr True"
    by (simp add: require_api_key_def truthy_def)
  from k
    routes_reject_empty_domain [of "[(''a.com'', None)]" "Some ''secret''" "Some ''secret''" None]
  show ?thesis by simp
qed

end
